theory Spec2Isabelle
  imports Complex_Main
begin

section \<open>Geometry: placement, collision detection, flip\<close>

text \<open>
  The popout component measures rectangles with \<open>getBoundingClientRect\<close>. Its
  coordinates are JavaScript numbers. In this section they are exact real numbers:
  the comparisons and the choice between rectangles are the same for both. What does
  depend on rounding, the extent of a computed rectangle, is treated over binary64
  numbers in the section on JavaScript numbers.

  \<open>Position\<close> is a \<open>ClientRect\<close> without \<open>height\<close> and \<open>width\<close>; its field
  \<open>top\<close> is written \<open>top'\<close> here, the plain name being the top element of a
  lattice in HOL.
\<close>

record position =
  bottom :: real
  left :: real
  right :: real
  top' :: real

record dimensions =
  height :: real
  width :: real

text \<open>\<open>Direction = keyof Position\<close>: the four string literals.\<close>

datatype direction = Bottom | Left | Right | Top

datatype flipFailureRecovery = Original | Scrollable

fun oppositeDirection :: "direction \<Rightarrow> direction" where
  "oppositeDirection Bottom = Top"
| "oppositeDirection Left = Right"
| "oppositeDirection Right = Left"
| "oppositeDirection Top = Bottom"

definition padding :: real where
  "padding = 12"

fun calculatePosition :: "position \<Rightarrow> dimensions \<Rightarrow> direction \<Rightarrow> position" where
  "calculatePosition anchor dims Bottom =
     \<lparr> bottom = bottom anchor + padding + height dims,
       left = left anchor,
       right = left anchor + width dims,
       top' = bottom anchor + padding \<rparr>"
| "calculatePosition anchor dims Left =
     \<lparr> bottom = top' anchor + height dims,
       left = left anchor - padding - width dims,
       right = left anchor - padding,
       top' = top' anchor \<rparr>"
| "calculatePosition anchor dims Right =
     \<lparr> bottom = top' anchor + height dims,
       left = right anchor + padding,
       right = right anchor + padding + width dims,
       top' = top' anchor \<rparr>"
| "calculatePosition anchor dims Top =
     \<lparr> bottom = top' anchor - padding,
       left = left anchor,
       right = left anchor + width dims,
       top' = top' anchor - padding - height dims \<rparr>"

text \<open>
  The result of \<open>checkBoundaryOutOfBounds\<close> is an object with one boolean per
  direction, read by indexing with a direction: a function from directions.
\<close>

fun checkBoundaryOutOfBounds :: "position \<Rightarrow> position \<Rightarrow> direction \<Rightarrow> bool" where
  "checkBoundaryOutOfBounds rect boundary Bottom =
     (bottom rect > bottom boundary \<or> top' rect > bottom boundary)"
| "checkBoundaryOutOfBounds rect boundary Left =
     (left rect < left boundary \<or> right rect < left boundary)"
| "checkBoundaryOutOfBounds rect boundary Right =
     (left rect > right boundary \<or> right rect > right boundary)"
| "checkBoundaryOutOfBounds rect boundary Top =
     (top' rect < top' boundary \<or> bottom rect < top' boundary)"

text \<open>\<open>Object.keys\<close> of the status object, in the order the literal lists them.\<close>

definition sideKeys :: "direction list" where
  "sideKeys = [Bottom, Left, Right, Top]"

definition isContained :: "position \<Rightarrow> position \<Rightarrow> bool" where
  "isContained rect boundary =
     (let outOufBoundsSides = checkBoundaryOutOfBounds rect boundary
      in \<not> list_ex (\<lambda>side. outOufBoundsSides side) sideKeys)"

text \<open>
  The read callback of \<open>positionPopout\<close>. It returns early when the anchor or the
  popout is not mounted, and otherwise leaves its result in the local variables
  \<open>position\<close>, \<open>flipped\<close> and (when there is a boundary) \<open>outOufBoundsSides\<close>,
  which the write callbacks it enqueues then apply. The model returns these variables.
\<close>

record placement =
  position :: position
  flipped :: bool
  outOufBoundsSides :: "(direction \<Rightarrow> bool) option"

definition positionPopout ::
  "position option \<Rightarrow> dimensions option \<Rightarrow> position option \<Rightarrow> direction \<Rightarrow> bool
     \<Rightarrow> flipFailureRecovery \<Rightarrow> placement option" where
  "positionPopout anchor popout boundary dir flip recovery =
     (case anchor of None \<Rightarrow> None | Some anchorRect \<Rightarrow>
     (case popout of None \<Rightarrow> None | Some popoutRect \<Rightarrow>
       (let pos = calculatePosition anchorRect popoutRect dir in
        (case boundary of
          None \<Rightarrow> Some \<lparr> position = pos, flipped = False, outOufBoundsSides = None \<rparr>
        | Some boundaryRect \<Rightarrow>
           (let sides = checkBoundaryOutOfBounds pos boundaryRect in
            if flip \<and> sides dir then
              (let opposite = oppositeDirection dir;
                   newPosition = calculatePosition anchorRect popoutRect opposite
               in Some \<lparr> position =
                          (if checkBoundaryOutOfBounds newPosition boundaryRect opposite
                           then (if recovery = Original then pos
                                 else if opposite = Top then pos
                                 else if opposite = Bottom then newPosition
                                 else if opposite = Left then pos
                                 else newPosition)
                           else newPosition),
                         flipped = True,
                         outOufBoundsSides = Some sides \<rparr>)
            else Some \<lparr> position = pos, flipped = False,
                        outOufBoundsSides = Some sides \<rparr>)))))"

section \<open>JavaScript numbers\<close>

text \<open>
  Whether a rectangle overflows, and which rectangle \<open>positionPopout\<close> picks, does
  not depend on how the additions round, and the model above computes with exact reals.
  The extent of the rectangle that \<open>calculatePosition\<close> returns does depend on it:
  the coordinates are JavaScript numbers, that is IEEE 754 binary64 values, and \<open>+\<close>
  and \<open>-\<close> round to the nearest one, ties to the even significand. This section
  models these numbers and writes \<open>calculatePosition\<close> over them.

  A finite binary64 value is a multiple of its quantum \<open>2 powi exponent x\<close>, 53 bits
  wide; the quantum of the subnormal numbers is \<open>2 powi (- 1074)\<close>. The two zeros are
  not told apart: they compare equal, and neither \<open>+\<close> nor \<open>-\<close> nor \<open>\<le>\<close> sees
  the sign of a zero in any other way than in the sign of a zero result.
\<close>

definition roundHalfEven :: "real \<Rightarrow> int" where
  "roundHalfEven x =
     (let f = \<lfloor>x\<rfloor>; d = x - of_int f
      in if d < 1 / 2 then f else if 1 / 2 < d then f + 1 else if even f then f else f + 1)"

definition exponent :: "real \<Rightarrow> int" where
  "exponent x = max (\<lfloor>log 2 \<bar>x\<bar>\<rfloor> - 52) (- 1074)"

definition roundNearest :: "real \<Rightarrow> real" where
  "roundNearest x =
     (if x = 0 then 0
      else of_int (roundHalfEven (x / 2 powi exponent x)) * 2 powi exponent x)"













section \<open>The batching scheduler\<close>

text \<open>
  A callback handed to \<open>read\<close> or \<open>write\<close> is an arbitrary function. The
  scheduler's variables are private to its module, so all a callback can do to the
  scheduler is call \<open>read\<close> and \<open>write\<close>, and then return or throw. One run of a
  callback is therefore modelled by the sequence of these calls, ended by \<open>Throw\<close>
  when the callback fails. The label tells callbacks with the same behaviour apart.
\<close>

datatype callback = Callback (label: nat) (body: "cmd list")
  and cmd = CallRead callback | CallWrite callback | Throw

datatype phase = WritePhase | ReadPhase

datatype completion = Returned | Thrown

text \<open>
  The module variables \<open>reads\<close>, \<open>writes\<close>, \<open>rafId\<close> and \<open>timeoutId\<close>,
  together with the part of the host they talk to: the animation-frame requests and the
  timers that are pending, and the last handle the host gave out (handles are positive
  integers). \<open>ran\<close> is a ghost log: every invocation \<open>cb()\<close> appends the callback,
  tagged with the loop that invoked it.
\<close>

record scheduler =
  reads :: "callback list"
  writes :: "callback list"
  rafId :: "nat option"
  timeoutId :: "nat option"
  frameRequests :: "nat list"
  timers :: "nat list"
  lastHandle :: nat
  ran :: "(phase \<times> callback) list"

definition initial :: scheduler where
  "initial = \<lparr> reads = [], writes = [], rafId = None, timeoutId = None,
               frameRequests = [], timers = [], lastHandle = 0, ran = [] \<rparr>"

text \<open>Truthiness of a \<open>number | null\<close>, as \<open>rafId || ...\<close> tests it.\<close>

fun truthy :: "nat option \<Rightarrow> bool" where
  "truthy None = False"
| "truthy (Some n) = (n \<noteq> 0)"

definition requestAnimationFrame :: "scheduler \<Rightarrow> nat \<times> scheduler" where
  "requestAnimationFrame s =
     (let h = Suc (lastHandle s)
      in (h, s\<lparr> lastHandle := h, frameRequests := frameRequests s @ [h] \<rparr>))"

definition setTimeout :: "scheduler \<Rightarrow> nat \<times> scheduler" where
  "setTimeout s =
     (let h = Suc (lastHandle s)
      in (h, s\<lparr> lastHandle := h, timers := timers s @ [h] \<rparr>))"

text \<open>
  \<open>schedule\<close> itself only arms the animation frame, unless one is armed already; the
  two closures it hands to the host are \<open>rafCallback\<close> and \<open>timeoutCallback\<close> below.
\<close>

definition schedule :: "scheduler \<Rightarrow> scheduler" where
  "schedule s =
     (if truthy (rafId s) then s
      else (let (h, s') = requestAnimationFrame s in s'\<lparr> rafId := Some h \<rparr>))"

definition read :: "callback \<Rightarrow> scheduler \<Rightarrow> nat \<times> scheduler" where
  "read cb s =
     (let s' = schedule s
      in (length (reads s') + 1, s'\<lparr> reads := reads s' @ [cb] \<rparr>))"

definition write' :: "callback \<Rightarrow> scheduler \<Rightarrow> nat \<times> scheduler" where
  "write' cb s =
     (let s' = schedule s
      in (length (writes s') + 1, s'\<lparr> writes := writes s' @ [cb] \<rparr>))"

text \<open>
  (\<open>write\<close> is a keyword of Isabelle, hence the name \<open>write'\<close>.)
  Running the body of a callback: a throw ends it, and keeps what it did so far.\<close>

fun exec :: "cmd list \<Rightarrow> scheduler \<Rightarrow> completion \<times> scheduler" where
  "exec [] s = (Returned, s)"
| "exec (CallRead cb # cs) s = exec cs (snd (read cb s))"
| "exec (CallWrite cb # cs) s = exec cs (snd (write' cb s))"
| "exec (Throw # cs) s = (Thrown, s)"

definition invoke :: "phase \<Rightarrow> callback \<Rightarrow> scheduler \<Rightarrow> completion \<times> scheduler" where
  "invoke p cb s = exec (body cb) (s\<lparr> ran := ran s @ [(p, cb)] \<rparr>)"

fun queue :: "phase \<Rightarrow> scheduler \<Rightarrow> callback list" where
  "queue WritePhase s = writes s"
| "queue ReadPhase s = reads s"

fun setQueue :: "phase \<Rightarrow> callback list \<Rightarrow> scheduler \<Rightarrow> scheduler" where
  "setQueue WritePhase q s = s\<lparr> writes := q \<rparr>"
| "setQueue ReadPhase q s = s\<lparr> reads := q \<rparr>"

text \<open>
  The two loops \<open>for (i = q.length; i > 0; i--) if ((cb = q.shift())) cb()\<close>, for
  \<open>q\<close> the write and the read queue, from the value \<open>i\<close> on. \<open>shift\<close> on an empty
  queue yields \<open>undefined\<close>, and the iteration calls nothing. Nothing catches what
  \<open>cb()\<close> throws: it leaves the loop and the closure around it. The variables
  \<open>i\<close> and \<open>cb\<close> belong to one call of \<open>schedule\<close>; its two loops run one
  after the other and a callback cannot re-enter them, so they are local to the loop here.
\<close>

fun drain :: "phase \<Rightarrow> nat \<Rightarrow> scheduler \<Rightarrow> completion \<times> scheduler" where
  "drain p 0 s = (Returned, s)"
| "drain p (Suc i) s =
     (case queue p s of
        [] \<Rightarrow> drain p i s
      | cb # rest \<Rightarrow>
          (case invoke p cb (setQueue p rest s) of
             (Thrown, s') \<Rightarrow> (Thrown, s')
           | (Returned, s') \<Rightarrow> drain p i s'))"

text \<open>The closure given to \<open>setTimeout\<close>.\<close>

definition timeoutCallback :: "scheduler \<Rightarrow> completion \<times> scheduler" where
  "timeoutCallback s =
     (let s1 = s\<lparr> timeoutId := None \<rparr>
      in drain ReadPhase (length (reads s1)) s1)"

text \<open>The closure given to \<open>requestAnimationFrame\<close>.\<close>

definition rafCallback :: "scheduler \<Rightarrow> completion \<times> scheduler" where
  "rafCallback s =
     (let s1 = s\<lparr> rafId := None \<rparr>
      in case drain WritePhase (length (writes s1)) s1 of
           (Thrown, s2) \<Rightarrow> (Thrown, s2)
         | (Returned, s2) \<Rightarrow>
             (Returned,
              if truthy (timeoutId s2) then s2
              else (let (h, s3) = setTimeout s2 in s3\<lparr> timeoutId := Some h \<rparr>)))"

text \<open>
  The host's two signals. At a display refresh the host takes the frame requests
  pending at that moment and runs the closure of each; when a timer is due it runs
  that timer's closure. An exception that leaves a closure goes to the host's error
  channel, and the host carries on.
\<close>

definition refreshSignal :: "scheduler \<Rightarrow> scheduler" where
  "refreshSignal s =
     fold (\<lambda>h s'. snd (rafCallback s')) (frameRequests s) (s\<lparr> frameRequests := [] \<rparr>)"

definition timerSignal :: "scheduler \<Rightarrow> scheduler" where
  "timerSignal s =
     (case timers s of
        [] \<Rightarrow> s
      | h # hs \<Rightarrow> snd (timeoutCallback (s\<lparr> timers := hs \<rparr>)))"

text \<open>One full activation: the refresh signal, then the timer signal.\<close>

definition activation :: "scheduler \<Rightarrow> scheduler" where
  "activation s = timerSignal (refreshSignal s)"

text \<open>Several calls of \<open>write\<close>, or of \<open>read\<close>, one after the other in one turn.\<close>

definition enqueue :: "phase \<Rightarrow> callback \<Rightarrow> scheduler \<Rightarrow> scheduler" where
  "enqueue p cb s = (case p of WritePhase \<Rightarrow> snd (write' cb s) | ReadPhase \<Rightarrow> snd (read cb s))"

definition enqueueAll :: "phase \<Rightarrow> callback list \<Rightarrow> scheduler \<Rightarrow> scheduler" where
  "enqueueAll p cbs s = fold (enqueue p) cbs s"

text \<open>What one run of a body does, read off the body alone.\<close>

fun throws :: "cmd list \<Rightarrow> bool" where
  "throws [] = False"
| "throws (Throw # cs) = True"
| "throws (c # cs) = throws cs"

definition fails :: "callback \<Rightarrow> bool" where
  "fails cb = throws (body cb)"

fun pushed :: "phase \<Rightarrow> cmd list \<Rightarrow> callback list" where
  "pushed p [] = []"
| "pushed p (Throw # cs) = []"
| "pushed p (CallRead cb # cs) = (if p = ReadPhase then cb # pushed p cs else pushed p cs)"
| "pushed p (CallWrite cb # cs) = (if p = WritePhase then cb # pushed p cs else pushed p cs)"

definition pushedBy :: "phase \<Rightarrow> callback list \<Rightarrow> callback list" where
  "pushedBy p cbs = concat (map (\<lambda>cb. pushed p (body cb)) cbs)"

text \<open>
  A scheduler with nothing queued and nothing armed, and the agreement between the
  two markers and the host that every reachable state has.
\<close>

definition idle :: "scheduler \<Rightarrow> bool" where
  "idle s = (reads s = [] \<and> writes s = [] \<and> rafId s = None \<and> timeoutId s = None
             \<and> frameRequests s = [] \<and> timers s = [])"

definition armedOf :: "nat option \<Rightarrow> nat list" where
  "armedOf m = (case m of None \<Rightarrow> [] | Some h \<Rightarrow> if h = 0 then [] else [h])"

definition consistent :: "scheduler \<Rightarrow> bool" where
  "consistent s = (frameRequests s = armedOf (rafId s) \<and> timers s = armedOf (timeoutId s))"

text \<open>
  Notions for stating what a drain does. \<open>upToFailure q\<close> is the front of \<open>q\<close> up
  to and including the first callback that fails (all of \<open>q\<close> when none fails);
  \<open>drained p u rest s\<close> is the state once the callbacks \<open>u\<close> have been taken from
  the front of the queue of phase \<open>p\<close> and invoked in state \<open>s\<close>, with \<open>rest\<close>
  left behind them in that queue.
\<close>

fun other :: "phase \<Rightarrow> phase" where
  "other WritePhase = ReadPhase"
| "other ReadPhase = WritePhase"

fun upToFailure :: "callback list \<Rightarrow> callback list" where
  "upToFailure [] = []"
| "upToFailure (cb # q) = (if fails cb then [cb] else cb # upToFailure q)"

definition pushes :: "callback list \<Rightarrow> bool" where
  "pushes u = (pushedBy ReadPhase u \<noteq> [] \<or> pushedBy WritePhase u \<noteq> [])"

definition drained :: "phase \<Rightarrow> callback list \<Rightarrow> callback list \<Rightarrow> scheduler \<Rightarrow> scheduler" where
  "drained p u rest s =
     setQueue p (rest @ pushedBy p u)
       (setQueue (other p) (queue (other p) s @ pushedBy (other p) u)
          ((if pushes u then schedule s else s)\<lparr> ran := ran s @ map (Pair p) u \<rparr>))"

section \<open>Properties of the geometry\<close>

text \<open>
  C4. For every anchor, dimensions and direction, \<open>calculatePosition\<close> returns the
  rectangle of the four formulas with the padding 12: to the right, \<open>top\<close> is the
  anchor's top, \<open>bottom\<close> is the anchor's top plus the height, \<open>left\<close> is the
  anchor's right plus 12 and \<open>right\<close> is the anchor's right plus 12 plus the width;
  likewise for the other three. The equation holds at each of the four directions, and
  there is no fifth.
\<close>

theorem calculatePosition_formulas:
  "calculatePosition anchor dims d =
     (case d of
        Right \<Rightarrow> \<lparr> bottom = top' anchor + height dims, left = right anchor + 12,
                   right = right anchor + 12 + width dims, top' = top' anchor \<rparr>
      | Left \<Rightarrow> \<lparr> bottom = top' anchor + height dims, left = left anchor - 12 - width dims,
                  right = left anchor - 12, top' = top' anchor \<rparr>
      | Bottom \<Rightarrow> \<lparr> bottom = bottom anchor + 12 + height dims, left = left anchor,
                    right = left anchor + width dims, top' = bottom anchor + 12 \<rparr>
      | Top \<Rightarrow> \<lparr> bottom = top' anchor - 12, left = left anchor,
                 right = left anchor + width dims, top' = top' anchor - 12 - height dims \<rparr>)"
  by (cases d) (simp_all add: padding_def)

text \<open>
  C5. \<open>checkBoundaryOutOfBounds\<close> reports each side by its own condition: the top
  when the top or the bottom edge of the rectangle lies above the boundary's top, the
  bottom when the bottom or the top edge lies below the boundary's bottom, the left when
  the left or the right edge lies left of the boundary's left, the right when the left or
  the right edge lies right of the boundary's right; and \<open>isContained\<close> holds
  exactly when no side is reported.
\<close>

theorem checkBoundaryOutOfBounds_sides:
  "(checkBoundaryOutOfBounds rect boundary Top
      \<longleftrightarrow> top' rect < top' boundary \<or> bottom rect < top' boundary)
   \<and> (checkBoundaryOutOfBounds rect boundary Bottom
      \<longleftrightarrow> bottom rect > bottom boundary \<or> top' rect > bottom boundary)
   \<and> (checkBoundaryOutOfBounds rect boundary Left
      \<longleftrightarrow> left rect < left boundary \<or> right rect < left boundary)
   \<and> (checkBoundaryOutOfBounds rect boundary Right
      \<longleftrightarrow> left rect > right boundary \<or> right rect > right boundary)
   \<and> (isContained rect boundary
      \<longleftrightarrow> (\<forall>side. \<not> checkBoundaryOutOfBounds rect boundary side))"
proof -
  have "(\<forall>side. \<not> checkBoundaryOutOfBounds rect boundary side)
        \<longleftrightarrow> \<not> list_ex (checkBoundaryOutOfBounds rect boundary) sideKeys"
  proof
    assume "\<forall>side. \<not> checkBoundaryOutOfBounds rect boundary side"
    then show "\<not> list_ex (checkBoundaryOutOfBounds rect boundary) sideKeys"
      by (simp add: list_ex_iff)
  next
    assume h: "\<not> list_ex (checkBoundaryOutOfBounds rect boundary) sideKeys"
    show "\<forall>side. \<not> checkBoundaryOutOfBounds rect boundary side"
    proof
      fix side
      have "side \<in> set sideKeys" by (cases side) (simp_all add: sideKeys_def)
      with h show "\<not> checkBoundaryOutOfBounds rect boundary side"
        unfolding list_ex_iff by blast
    qed
  qed
  then show ?thesis by (simp add: isContained_def)
qed

text \<open>
  C9. A rectangle (its top is not below its bottom, its left not right of its right)
  overflows itself on no side.
\<close>

theorem checkBoundaryOutOfBounds_self:
  assumes "top' rect \<le> bottom rect" and "left rect \<le> right rect"
  shows "\<not> checkBoundaryOutOfBounds rect rect side"
  using assms by (cases side) simp_all

theorem checkBoundaryOutOfBounds_self_witness:
  "top' \<lparr> bottom = 124, left = 100, right = 124, top' = 100 \<rparr>
     \<le> bottom \<lparr> bottom = 124, left = 100, right = 124, top' = 100 \<rparr>
   \<and> left \<lparr> bottom = 124, left = 100, right = 124, top' = 100 \<rparr>
     \<le> right \<lparr> bottom = 124, left = 100, right = 124, top' = 100 \<rparr>
   \<and> \<not> checkBoundaryOutOfBounds \<lparr> bottom = 124, left = 100, right = 124, top' = 100 \<rparr>
        \<lparr> bottom = 124, left = 100, right = 124, top' = 100 \<rparr> Bottom"
  using checkBoundaryOutOfBounds_self
    [of "\<lparr> bottom = 124, left = 100, right = 124, top' = 100 \<rparr>" Bottom]
  by simp

text \<open>
  C8. Without a boundary, or with \<open>flip\<close> off, or when the primary placement does
  not overflow the boundary on its own direction, the result is the primary placement,
  not flagged as flipped (and the status is that of the primary placement, when there is
  a boundary).
\<close>

theorem positionPopout_unflipped:
  assumes "boundary = None \<or> \<not> flip
           \<or> (\<exists>b. boundary = Some b
                  \<and> \<not> checkBoundaryOutOfBounds (calculatePosition anchor dims d) b d)"
  shows "positionPopout (Some anchor) (Some dims) boundary d flip recovery =
           Some \<lparr> position = calculatePosition anchor dims d, flipped = False,
                  outOufBoundsSides =
                    map_option (checkBoundaryOutOfBounds (calculatePosition anchor dims d))
                      boundary \<rparr>"
  using assms by (cases boundary) (auto simp: positionPopout_def Let_def)

theorem positionPopout_unflipped_witness:
  "positionPopout (Some \<lparr> bottom = 124, left = 100, right = 124, top' = 100 \<rparr>)
       (Some \<lparr> height = 50, width = 50 \<rparr>)
       (Some \<lparr> bottom = 200, left = 0, right = 200, top' = 0 \<rparr>) Right True Original
     = Some \<lparr> position = \<lparr> bottom = 150, left = 136, right = 186, top' = 100 \<rparr>,
              flipped = False,
              outOufBoundsSides =
                Some (checkBoundaryOutOfBounds
                        \<lparr> bottom = 150, left = 136, right = 186, top' = 100 \<rparr>
                        \<lparr> bottom = 200, left = 0, right = 200, top' = 0 \<rparr>) \<rparr>"
  using positionPopout_unflipped
    [of "Some \<lparr> bottom = 200, left = 0, right = 200, top' = 0 \<rparr>" True
        "\<lparr> bottom = 124, left = 100, right = 124, top' = 100 \<rparr>"
        "\<lparr> height = 50, width = 50 \<rparr>" Right Original]
  by (simp add: padding_def)

text \<open>
  C7. With a boundary and \<open>flip\<close> on, when the primary placement overflows on its
  own direction and the placement in the opposite direction does not overflow on the
  opposite direction, the result is the opposite placement, flagged as flipped.
\<close>

theorem positionPopout_flips:
  assumes "flip"
    and "checkBoundaryOutOfBounds (calculatePosition anchor dims d) b d"
    and "\<not> checkBoundaryOutOfBounds (calculatePosition anchor dims (oppositeDirection d)) b
             (oppositeDirection d)"
  shows "positionPopout (Some anchor) (Some dims) (Some b) d flip recovery =
           Some \<lparr> position = calculatePosition anchor dims (oppositeDirection d),
                  flipped = True,
                  outOufBoundsSides =
                    Some (checkBoundaryOutOfBounds (calculatePosition anchor dims d) b) \<rparr>"
  using assms by (simp add: positionPopout_def Let_def)

theorem positionPopout_flips_witness:
  "positionPopout (Some \<lparr> bottom = 124, left = 100, right = 124, top' = 100 \<rparr>)
       (Some \<lparr> height = 50, width = 50 \<rparr>)
       (Some \<lparr> bottom = 200, left = 0, right = 150, top' = 0 \<rparr>) Right True Original
     = Some \<lparr> position = \<lparr> bottom = 150, left = 38, right = 88, top' = 100 \<rparr>,
              flipped = True,
              outOufBoundsSides =
                Some (checkBoundaryOutOfBounds
                        \<lparr> bottom = 150, left = 136, right = 186, top' = 100 \<rparr>
                        \<lparr> bottom = 200, left = 0, right = 150, top' = 0 \<rparr>) \<rparr>"
  using positionPopout_flips
    [of True "\<lparr> bottom = 124, left = 100, right = 124, top' = 100 \<rparr>"
        "\<lparr> height = 50, width = 50 \<rparr>" Right
        "\<lparr> bottom = 200, left = 0, right = 150, top' = 0 \<rparr>" Original]
  by (simp add: padding_def)

text \<open>
  C3. When a flip is attempted and the opposite placement overflows on the opposite
  direction too: the policy \<open>original\<close> yields the primary placement; the policy
  \<open>scrollable\<close> yields the opposite placement when the opposite direction is
  \<open>bottom\<close> or \<open>right\<close>, and the primary placement when it is \<open>top\<close> or
  \<open>left\<close>; either way the result is flagged as flipped.
\<close>

theorem positionPopout_flip_failure:
  assumes "flip"
    and "checkBoundaryOutOfBounds (calculatePosition anchor dims d) b d"
    and "checkBoundaryOutOfBounds (calculatePosition anchor dims (oppositeDirection d)) b
           (oppositeDirection d)"
  shows "positionPopout (Some anchor) (Some dims) (Some b) d flip Original =
           Some \<lparr> position = calculatePosition anchor dims d, flipped = True,
                  outOufBoundsSides =
                    Some (checkBoundaryOutOfBounds (calculatePosition anchor dims d) b) \<rparr>
         \<and> positionPopout (Some anchor) (Some dims) (Some b) d flip Scrollable =
           Some \<lparr> position =
                    (if oppositeDirection d = Bottom \<or> oppositeDirection d = Right
                     then calculatePosition anchor dims (oppositeDirection d)
                     else calculatePosition anchor dims d),
                  flipped = True,
                  outOufBoundsSides =
                    Some (checkBoundaryOutOfBounds (calculatePosition anchor dims d) b) \<rparr>"
  using assms by (cases d) (simp_all add: positionPopout_def Let_def)

theorem positionPopout_flip_failure_witness:
  "positionPopout (Some \<lparr> bottom = 124, left = 100, right = 124, top' = 100 \<rparr>)
       (Some \<lparr> height = 50, width = 50 \<rparr>)
       (Some \<lparr> bottom = 140, left = 0, right = 200, top' = 60 \<rparr>) Top True Original
     = Some \<lparr> position = \<lparr> bottom = 88, left = 100, right = 150, top' = 38 \<rparr>,
              flipped = True,
              outOufBoundsSides =
                Some (checkBoundaryOutOfBounds
                        \<lparr> bottom = 88, left = 100, right = 150, top' = 38 \<rparr>
                        \<lparr> bottom = 140, left = 0, right = 200, top' = 60 \<rparr>) \<rparr>
   \<and> positionPopout (Some \<lparr> bottom = 124, left = 100, right = 124, top' = 100 \<rparr>)
       (Some \<lparr> height = 50, width = 50 \<rparr>)
       (Some \<lparr> bottom = 140, left = 0, right = 200, top' = 60 \<rparr>) Top True Scrollable
     = Some \<lparr> position = \<lparr> bottom = 186, left = 100, right = 150, top' = 136 \<rparr>,
              flipped = True,
              outOufBoundsSides =
                Some (checkBoundaryOutOfBounds
                        \<lparr> bottom = 88, left = 100, right = 150, top' = 38 \<rparr>
                        \<lparr> bottom = 140, left = 0, right = 200, top' = 60 \<rparr>) \<rparr>"
  using positionPopout_flip_failure
    [of True "\<lparr> bottom = 124, left = 100, right = 124, top' = 100 \<rparr>"
        "\<lparr> height = 50, width = 50 \<rparr>" Top
        "\<lparr> bottom = 140, left = 0, right = 200, top' = 60 \<rparr>"]
  by (simp add: padding_def)

section \<open>Properties of the rounded arithmetic\<close>

subsection \<open>Rounding to the nearest binary64 value\<close>





lemma binade_iff:
  assumes "x \<noteq> 0"
  shows "\<lfloor>log 2 \<bar>x\<bar>\<rfloor> = k \<longleftrightarrow> 2 powi k \<le> \<bar>x\<bar> \<and> \<bar>x\<bar> < 2 powi (k + 1)"
proof -
  have p: "(2::real) powr real_of_int j = 2 powi j" for j
    by (rule powr_real_of_int') simp_all
  have "\<lfloor>log 2 \<bar>x\<bar>\<rfloor> = k \<longleftrightarrow> 2 powr real_of_int k \<le> \<bar>x\<bar> \<and> \<bar>x\<bar> < 2 powr real_of_int (k + 1)"
    using floor_log_eq_powr_iff [of "\<bar>x\<bar>" 2 k] assms by simp
  then show ?thesis by (simp only: p)
qed



lemma exponent_minus [simp]: "exponent (- x) = exponent x"
  by (simp add: exponent_def)




lemma roundNearest_0 [simp]: "roundNearest 0 = 0"
  by (simp add: roundNearest_def)









lemma binade_pow2 [simp]: "\<lfloor>log 2 (2 powi j)\<rfloor> = j"
proof -
  have "(2::real) powi j \<noteq> 0" by simp
  from binade_iff [OF this, of j] show ?thesis
    by (simp add: power_int_strict_increasing)
qed




subsection \<open>Sums and differences of numbers\<close>













subsection \<open>The extent of the computed rectangle\<close>




section \<open>Properties of the scheduler\<close>

subsection \<open>What \<open>schedule\<close>, a callback and a drain do, in closed form\<close>

lemma truthy_schedule [simp]: "truthy (rafId (schedule s))"
  by (simp add: schedule_def requestAnimationFrame_def Let_def)

lemma schedule_truthy [simp]: "truthy (rafId s) \<Longrightarrow> schedule s = s"
  by (simp add: schedule_def)

lemma schedule_fields [simp]:
  "reads (schedule s) = reads s"
  "writes (schedule s) = writes s"
  "ran (schedule s) = ran s"
  "timeoutId (schedule s) = timeoutId s"
  "timers (schedule s) = timers s"
  by (simp_all add: schedule_def requestAnimationFrame_def Let_def)

lemma schedule_update [simp]:
  "schedule (s\<lparr> reads := r \<rparr>) = (schedule s)\<lparr> reads := r \<rparr>"
  "schedule (s\<lparr> writes := w \<rparr>) = (schedule s)\<lparr> writes := w \<rparr>"
  "schedule (s\<lparr> ran := l \<rparr>) = (schedule s)\<lparr> ran := l \<rparr>"
  by (simp_all add: schedule_def requestAnimationFrame_def Let_def)

lemma exec_closed:
  "exec b s =
     (if throws b then Thrown else Returned,
      (if pushed ReadPhase b = [] \<and> pushed WritePhase b = [] then s else schedule s)
        \<lparr> reads := reads s @ pushed ReadPhase b, writes := writes s @ pushed WritePhase b \<rparr>)"
proof (induction b s rule: exec.induct)
  case (1 s)
  show ?case by simp
next
  case (2 cb cs s)
  then show ?case by (simp add: read_def Let_def)
next
  case (3 cb cs s)
  then show ?case by (simp add: write'_def Let_def)
next
  case (4 cs s)
  show ?case by simp
qed

lemma pushedBy_simps [simp]:
  "pushedBy p [] = []"
  "pushedBy p (cb # cbs) = pushed p (body cb) @ pushedBy p cbs"
  "pushedBy p (xs @ ys) = pushedBy p xs @ pushedBy p ys"
  by (simp_all add: pushedBy_def)

lemma pushes_simps [simp]:
  "pushes [] = False"
  "pushes (cb # cbs) =
     (pushed ReadPhase (body cb) \<noteq> [] \<or> pushed WritePhase (body cb) \<noteq> [] \<or> pushes cbs)"
  by (auto simp: pushes_def)

lemma invoke_closed:
  "invoke p cb s =
     (if fails cb then Thrown else Returned,
      (if pushed ReadPhase (body cb) = [] \<and> pushed WritePhase (body cb) = [] then s
       else schedule s)
        \<lparr> ran := ran s @ [(p, cb)],
          reads := reads s @ pushed ReadPhase (body cb),
          writes := writes s @ pushed WritePhase (body cb) \<rparr>)"
  by (simp add: invoke_def exec_closed fails_def)

lemma drain_closed:
  "queue p s = q @ r \<Longrightarrow>
   drain p (length q) s =
     (if list_ex fails q then Thrown else Returned,
      drained p (upToFailure q) (drop (length (upToFailure q)) q @ r) s)"
proof (induction q arbitrary: s r)
  case Nil
  then show ?case by (cases p) (simp_all add: drained_def)
next
  case (Cons c q)
  show ?case
  proof (cases "fails c")
    case True
    with Cons.prems show ?thesis
      by (cases p) (simp_all add: invoke_closed drained_def)
  next
    case False
    let ?s1 = "snd (invoke p c (setQueue p (q @ r) s))"
    have q1: "queue p ?s1 = q @ (r @ pushed p (body c))"
      by (cases p) (simp_all add: invoke_closed)
    have step: "drain p (length (c # q)) s = drain p (length q) ?s1"
      using Cons.prems False by (simp add: invoke_closed)
    have "drained p (upToFailure q) (drop (length (upToFailure q)) q @ r @ pushed p (body c)) ?s1
          = drained p (upToFailure (c # q)) (drop (length (upToFailure (c # q))) (c # q) @ r) s"
      using False by (cases p) (auto simp: invoke_closed drained_def)
    with Cons.IH [OF q1] step False show ?thesis by simp
  qed
qed

lemma armed_schedule:
  "frameRequests s = armedOf (rafId s) \<Longrightarrow>
   frameRequests (schedule s) = armedOf (rafId (schedule s))"
  by (cases "rafId s")
     (auto simp: schedule_def requestAnimationFrame_def Let_def armedOf_def)

lemma drained_ran [simp]: "ran (drained p u rest s) = ran s @ map (Pair p) u"
  by (cases p) (simp_all add: drained_def)

lemma drained_queues [simp]:
  "writes (drained WritePhase u rest s) = rest @ pushedBy WritePhase u"
  "reads (drained WritePhase u rest s) = reads s @ pushedBy ReadPhase u"
  "reads (drained ReadPhase u rest s) = rest @ pushedBy ReadPhase u"
  "writes (drained ReadPhase u rest s) = writes s @ pushedBy WritePhase u"
  by (simp_all add: drained_def)

lemma drained_timer [simp]:
  "timeoutId (drained p u rest s) = timeoutId s"
  "timers (drained p u rest s) = timers s"
  by (cases p; simp add: drained_def)+

lemma drained_truthy:
  "truthy (rafId s) \<or> pushes u \<Longrightarrow> truthy (rafId (drained p u rest s))"
  by (cases p) (auto simp: drained_def)

lemma drained_armed:
  "frameRequests s = armedOf (rafId s) \<Longrightarrow>
   frameRequests (drained p u rest s) = armedOf (rafId (drained p u rest s))"
  by (cases p) (auto simp: drained_def armed_schedule)

lemma timeoutCallback_closed:
  "timeoutCallback s =
     (if list_ex fails (reads s) then Thrown else Returned,
      drained ReadPhase (upToFailure (reads s))
        (drop (length (upToFailure (reads s))) (reads s)) (s\<lparr> timeoutId := None \<rparr>))"
  using drain_closed [of ReadPhase "s\<lparr> timeoutId := None \<rparr>" "reads s" "[]"]
  by (simp add: timeoutCallback_def)

lemma rafCallback_closed:
  "rafCallback s =
     (if list_ex fails (writes s) then Thrown else Returned,
      let s2 = drained WritePhase (upToFailure (writes s))
                 (drop (length (upToFailure (writes s))) (writes s)) (s\<lparr> rafId := None \<rparr>)
      in if list_ex fails (writes s) \<or> truthy (timeoutId s) then s2
         else s2\<lparr> lastHandle := Suc (lastHandle s2),
                  timers := timers s @ [Suc (lastHandle s2)],
                  timeoutId := Some (Suc (lastHandle s2)) \<rparr>)"
  using drain_closed [of WritePhase "s\<lparr> rafId := None \<rparr>" "writes s" "[]"]
  by (simp add: rafCallback_def setTimeout_def Let_def)

lemma refreshSignal_none: "frameRequests s = [] \<Longrightarrow> refreshSignal s = s"
  by (simp add: refreshSignal_def)

lemma refreshSignal_one:
  "frameRequests s = [h] \<Longrightarrow> refreshSignal s = snd (rafCallback (s\<lparr> frameRequests := [] \<rparr>))"
  by (simp add: refreshSignal_def)

lemma timerSignal_none: "timers s = [] \<Longrightarrow> timerSignal s = s"
  by (simp add: timerSignal_def)

lemma timerSignal_one:
  "timers s = h # hs \<Longrightarrow> timerSignal s = snd (timeoutCallback (s\<lparr> timers := hs \<rparr>))"
  by (simp add: timerSignal_def)

lemma upToFailure_ahead:
  "\<forall>x\<in>set pre. \<not> fails x \<Longrightarrow> upToFailure (pre @ q) = pre @ upToFailure q"
  by (induction pre) simp_all

lemma upToFailure_all: "\<forall>x\<in>set q. \<not> fails x \<Longrightarrow> upToFailure q = q"
  using upToFailure_ahead [of q "[]"] by simp

lemma list_ex_fails: "list_ex fails q \<longleftrightarrow> (\<exists>x\<in>set q. fails x)"
  by (simp add: list_ex_iff)

lemma enqueue_closed: "enqueue p cb s = setQueue p (queue p s @ [cb]) (schedule s)"
  by (cases p) (simp_all add: enqueue_def read_def write'_def Let_def)

lemma schedule_setQueue [simp]: "schedule (setQueue p q s) = setQueue p q (schedule s)"
  by (cases p) simp_all

lemma queue_schedule [simp]: "queue p (schedule s) = queue p s"
  by (cases p) simp_all

lemma rafId_setQueue [simp]: "rafId (setQueue p q s) = rafId s"
  by (cases p) simp_all

lemma queue_setQueue [simp]: "queue p (setQueue p q s) = q"
  by (cases p) simp_all

lemma setQueue_setQueue [simp]: "setQueue p q (setQueue p q' s) = setQueue p q s"
  by (cases p) simp_all

lemma enqueueAll_closed:
  "enqueueAll p cbs s = (if cbs = [] then s else setQueue p (queue p s @ cbs) (schedule s))"
proof (induction cbs arbitrary: s)
  case Nil
  show ?case by (simp add: enqueueAll_def)
next
  case (Cons cb cbs)
  have "enqueueAll p (cb # cbs) s = enqueueAll p cbs (enqueue p cb s)"
    by (simp add: enqueueAll_def)
  then show ?case by (simp add: Cons.IH enqueue_closed)
qed

lemma enqueued_idle:
  assumes "idle s" and "ws \<noteq> [] \<or> rs \<noteq> []"
  shows "enqueueAll ReadPhase rs (enqueueAll WritePhase ws s)
           = s\<lparr> reads := rs, writes := ws, rafId := Some (Suc (lastHandle s)),
                frameRequests := [Suc (lastHandle s)], lastHandle := Suc (lastHandle s) \<rparr>"
  using assms
  by (auto simp: enqueueAll_closed idle_def schedule_def requestAnimationFrame_def Let_def)

lemma pushedBy_mem:
  "c \<in> set u \<Longrightarrow> w \<in> set (pushed p (body c)) \<Longrightarrow> w \<in> set (pushedBy p u)"
  by (auto simp: pushedBy_def)

lemma armedOf_truthy: "truthy m \<Longrightarrow> armedOf m = [the m]"
  by (cases m) (simp_all add: armedOf_def)

lemma timerSignal_closed:
  assumes "consistent s" and "timers s \<noteq> []"
  shows "timerSignal s =
           drained ReadPhase (upToFailure (reads s))
             (drop (length (upToFailure (reads s))) (reads s))
             (s\<lparr> timers := [], timeoutId := None \<rparr>)"
proof -
  from assms have "timers s = [the (timeoutId s)]"
    by (cases "timeoutId s") (auto simp: consistent_def armedOf_def split: if_splits)
  then show ?thesis
    by (simp add: timerSignal_one [of s "the (timeoutId s)" "[]"] timeoutCallback_closed)
qed

lemma refreshSignal_ran:
  assumes "frameRequests s = [h]"
  shows "ran (refreshSignal s) = ran s @ map (Pair WritePhase) (upToFailure (writes s))"
  using assms by (simp add: refreshSignal_one [of s h] rafCallback_closed Let_def)

text \<open>Unfolding the operations, to run the scheduler on concrete callbacks.\<close>

lemmas sched_eval =
  activation_def enqueueAll_def enqueue_def write'_def read_def initial_def schedule_def
  requestAnimationFrame_def setTimeout_def refreshSignal_def timerSignal_def
  rafCallback_def timeoutCallback_def invoke_def Let_def

subsection \<open>The markers agree with the host in every reachable state\<close>

lemma consistent_initial: "consistent initial"
  by (simp add: consistent_def initial_def armedOf_def)

lemma consistent_enqueue: "consistent s \<Longrightarrow> consistent (enqueue p cb s)"
  by (cases p) (simp_all add: consistent_def enqueue_closed armed_schedule)

lemma consistent_timerSignal:
  assumes "consistent s"
  shows "consistent (timerSignal s)"
proof (cases "timers s = []")
  case True
  with assms show ?thesis by (simp add: timerSignal_none)
next
  case False
  have "frameRequests (s\<lparr> timers := [], timeoutId := None \<rparr>)
          = armedOf (rafId (s\<lparr> timers := [], timeoutId := None \<rparr>))"
    using assms by (simp add: consistent_def)
  then show ?thesis
    unfolding timerSignal_closed [OF assms False] consistent_def
    by (simp add: drained_armed armedOf_def)
qed

lemma consistent_refreshSignal:
  assumes "consistent s"
  shows "consistent (refreshSignal s)"
proof (cases "frameRequests s = []")
  case True
  with assms show ?thesis by (simp add: refreshSignal_none)
next
  case False
  with assms have one: "frameRequests s = [the (rafId s)]"
    by (cases "rafId s") (auto simp: consistent_def armedOf_def split: if_splits)
  let ?s0 = "s\<lparr> frameRequests := [], rafId := None \<rparr>"
  let ?u = "upToFailure (writes s)"
  let ?s2 = "drained WritePhase ?u (drop (length ?u) (writes s)) ?s0"
  have "frameRequests ?s0 = armedOf (rafId ?s0)"
    by (simp add: armedOf_def)
  then have frames: "frameRequests ?s2 = armedOf (rafId ?s2)"
    by (rule drained_armed)
  have timers: "timers s = armedOf (timeoutId s)"
    using assms by (simp add: consistent_def)
  have idle_timer: "\<not> truthy (timeoutId s) \<Longrightarrow> timers s = []"
    using timers by (cases "timeoutId s") (simp_all add: armedOf_def)
  show ?thesis
    using frames timers idle_timer
    by (simp add: refreshSignal_one [OF one] rafCallback_closed Let_def consistent_def
        armedOf_def)
qed

subsection \<open>Failure of a callback\<close>

text \<open>
  C1, as the code has it. The loops catch nothing, so a callback that fails ends the
  drain of its phase: when the callbacks queued ahead of it do not fail, the drain
  invokes them in order, then the failing one, and throws; the callbacks queued behind
  the failing one are not invoked by this drain and stay at the front of the queue.
\<close>

theorem drain_failure_aborts:
  assumes "queue p s = pre @ c # post" and "\<forall>x\<in>set pre. \<not> fails x" and "fails c"
  shows "fst (drain p (length (queue p s)) s) = Thrown
         \<and> ran (snd (drain p (length (queue p s)) s)) = ran s @ map (Pair p) (pre @ [c])
         \<and> queue p (snd (drain p (length (queue p s)) s)) = post @ pushedBy p (pre @ [c])"
proof -
  have u: "upToFailure (queue p s) = pre @ [c]"
    using assms by (simp add: upToFailure_ahead)
  have "list_ex fails (queue p s)"
    using assms by (simp add: list_ex_fails)
  with u drain_closed [of p s "queue p s" "[]"] assms(1) show ?thesis
    by (cases p) simp_all
qed

theorem drain_failure_aborts_witness:
  "ran (snd (drain WritePhase 3
          (enqueueAll WritePhase [Callback 1 [], Callback 2 [Throw], Callback 3 []] initial)))
     = [(WritePhase, Callback 1 []), (WritePhase, Callback 2 [Throw])]
   \<and> writes (snd (drain WritePhase 3
          (enqueueAll WritePhase [Callback 1 [], Callback 2 [Throw], Callback 3 []] initial)))
     = [Callback 3 []]"
  using drain_failure_aborts
    [of WritePhase
        "enqueueAll WritePhase [Callback 1 [], Callback 2 [Throw], Callback 3 []] initial"
        "[Callback 1 []]" "Callback 2 [Throw]" "[Callback 3 []]"]
  by (simp add: enqueueAll_def enqueue_def write'_def initial_def schedule_def
      requestAnimationFrame_def Let_def fails_def invoke_def numeral_3_eq_3)

text \<open>
  C1 as stated does not hold. Two callbacks are queued for one phase and the first one
  fails: through a whole activation the second one is never invoked and is left in its
  queue, in the write phase and in the read phase alike.
\<close>

theorem drain_failure_aborts_counterexample:
  "ran (activation (enqueueAll WritePhase [Callback 1 [Throw], Callback 2 []] initial))
     = [(WritePhase, Callback 1 [Throw])]
   \<and> writes (activation (enqueueAll WritePhase [Callback 1 [Throw], Callback 2 []] initial))
     = [Callback 2 []]
   \<and> ran (activation (enqueueAll ReadPhase [Callback 1 [Throw], Callback 2 []] initial))
     = [(ReadPhase, Callback 1 [Throw])]
   \<and> reads (activation (enqueueAll ReadPhase [Callback 1 [Throw], Callback 2 []] initial))
     = [Callback 2 []]"
  by (simp add: sched_eval)

subsection \<open>One activation\<close>

text \<open>
  C2, as the code has it. On an idle scheduler, \<open>k\<close> write callbacks and then \<open>m\<close>
  read callbacks are enqueued in one turn. When none of the callbacks that get invoked
  fails, one activation invokes the \<open>k\<close> write callbacks in the order of insertion,
  and after them, in the order of insertion, the \<open>m\<close> read callbacks followed by the
  read callbacks that the write callbacks enqueued while they ran: the read queue is
  counted when the timer fires. What the write callbacks pass to \<open>write\<close>, and what
  the read callbacks pass to \<open>read\<close> or \<open>write\<close>, is not invoked and is left in
  the queues.
\<close>

theorem activation_writes_then_reads:
  assumes "idle s"
    and "\<forall>x\<in>set ws. \<not> fails x"
    and "\<forall>x\<in>set (rs @ pushedBy ReadPhase ws). \<not> fails x"
  shows "ran (activation (enqueueAll ReadPhase rs (enqueueAll WritePhase ws s)))
           = ran s @ map (Pair WritePhase) ws
               @ map (Pair ReadPhase) (rs @ pushedBy ReadPhase ws)
         \<and> writes (activation (enqueueAll ReadPhase rs (enqueueAll WritePhase ws s)))
           = pushedBy WritePhase ws @ pushedBy WritePhase (rs @ pushedBy ReadPhase ws)
         \<and> reads (activation (enqueueAll ReadPhase rs (enqueueAll WritePhase ws s)))
           = pushedBy ReadPhase (rs @ pushedBy ReadPhase ws)"
proof (cases "ws = [] \<and> rs = []")
  case True
  with assms(1) show ?thesis
    by (simp add: enqueueAll_closed activation_def refreshSignal_none timerSignal_none
        idle_def)
next
  case False
  define s2 where "s2 = enqueueAll ReadPhase rs (enqueueAll WritePhase ws s)"
  define s3 where "s3 = refreshSignal s2"
  have s2: "s2 = s\<lparr> reads := rs, writes := ws, rafId := Some (Suc (lastHandle s)),
                frameRequests := [Suc (lastHandle s)], lastHandle := Suc (lastHandle s) \<rparr>"
    unfolding s2_def using assms(1) False by (intro enqueued_idle) auto
  have nw: "\<not> list_ex fails ws" and uw: "upToFailure ws = ws"
    using assms(2) by (simp_all add: list_ex_fails upToFailure_all)
  have nr: "\<not> list_ex fails (rs @ pushedBy ReadPhase ws)"
    and ur: "upToFailure (rs @ pushedBy ReadPhase ws) = rs @ pushedBy ReadPhase ws"
    using assms(3) by (simp_all only: list_ex_fails upToFailure_all) auto
  have idle: "timeoutId s = None" "timers s = []"
    using assms(1) by (simp_all add: idle_def)
  have "s3 = snd (rafCallback (s2\<lparr> frameRequests := [] \<rparr>))"
    unfolding s3_def by (rule refreshSignal_one [of _ "Suc (lastHandle s)"]) (simp add: s2)
  then have s3: "ran s3 = ran s @ map (Pair WritePhase) ws"
    "writes s3 = pushedBy WritePhase ws"
    "reads s3 = rs @ pushedBy ReadPhase ws"
    "\<exists>h. timers s3 = [h]"
    using nw uw idle by (simp_all add: rafCallback_closed s2 Let_def)
  then obtain h where h: "timers s3 = [h]" by blast
  have "activation s2 = snd (timeoutCallback (s3\<lparr> timers := [] \<rparr>))"
    unfolding activation_def s3_def [symmetric] using h by (rule timerSignal_one)
  then show ?thesis
    unfolding s2_def [symmetric] using nr ur s3(1-3)
    by (simp add: timeoutCallback_closed)
qed

theorem activation_writes_then_reads_witness:
  "ran (activation (enqueueAll ReadPhase [Callback 2 []]
         (enqueueAll WritePhase
            [Callback 1 [CallRead (Callback 3 []), CallWrite (Callback 4 [])]] initial)))
     = [(WritePhase, Callback 1 [CallRead (Callback 3 []), CallWrite (Callback 4 [])]),
        (ReadPhase, Callback 2 []), (ReadPhase, Callback 3 [])]
   \<and> writes (activation (enqueueAll ReadPhase [Callback 2 []]
         (enqueueAll WritePhase
            [Callback 1 [CallRead (Callback 3 []), CallWrite (Callback 4 [])]] initial)))
     = [Callback 4 []]"
  using activation_writes_then_reads
    [of initial "[Callback 1 [CallRead (Callback 3 []), CallWrite (Callback 4 [])]]"
        "[Callback 2 []]"]
  by (simp add: idle_def initial_def fails_def)

text \<open>
  C2 as stated does not hold. With one write callback that calls \<open>read\<close> and one read
  callback, the activation invokes three callbacks, the third being the read callback
  enqueued by the write callback; and with a write callback that fails, the timer is
  never armed and the read callback is not invoked at all.
\<close>

theorem activation_writes_then_reads_counterexample:
  "ran (activation (enqueueAll ReadPhase [Callback 2 []]
         (enqueueAll WritePhase [Callback 1 [CallRead (Callback 3 [])]] initial)))
     = [(WritePhase, Callback 1 [CallRead (Callback 3 [])]),
        (ReadPhase, Callback 2 []), (ReadPhase, Callback 3 [])]
   \<and> ran (activation (enqueueAll ReadPhase [Callback 2 []]
         (enqueueAll WritePhase [Callback 1 [Throw]] initial)))
     = [(WritePhase, Callback 1 [Throw])]"
  by (simp add: sched_eval)

subsection \<open>A write enqueued by a read callback\<close>

text \<open>
  C6, as the code has it. The timer of an activation is due, and a callback \<open>c\<close> that
  its read phase invokes passes \<open>w\<close> to \<open>write\<close>. Then the read phase invokes
  callbacks of the read queue only, so \<open>w\<close> is not invoked in it; \<open>w\<close> is left in
  the write queue; a refresh request is pending afterwards, and it is a fresh one when
  the marker \<open>rafId\<close> was clear before the read phase. At the next refresh signal
  the write phase invokes \<open>w\<close>, after the callbacks queued ahead of it, provided none
  of those fails.
\<close>

theorem write_from_read_deferred:
  assumes "consistent s" and "timers s \<noteq> []"
    and "c \<in> set (upToFailure (reads s))"
    and "w \<in> set (pushed WritePhase (body c))"
    and "writes (timerSignal s) = ahead @ w # behind"
    and "\<forall>x\<in>set ahead. \<not> fails x"
  shows "ran (timerSignal s) = ran s @ map (Pair ReadPhase) (upToFailure (reads s))
         \<and> writes (timerSignal s)
             = writes s @ pushedBy WritePhase (upToFailure (reads s))
         \<and> w \<in> set (pushedBy WritePhase (upToFailure (reads s)))
         \<and> truthy (rafId (timerSignal s))
         \<and> frameRequests (timerSignal s) = [the (rafId (timerSignal s))]
         \<and> (\<not> truthy (rafId s) \<longrightarrow> rafId (timerSignal s) = Some (Suc (lastHandle s)))
         \<and> ran (refreshSignal (timerSignal s))
             = ran (timerSignal s)
                 @ map (Pair WritePhase)
                     (ahead @ w # (if fails w then [] else upToFailure behind))"
proof -
  let ?u = "upToFailure (reads s)"
  let ?s0 = "s\<lparr> timers := [], timeoutId := None \<rparr>"
  have closed: "timerSignal s = drained ReadPhase ?u (drop (length ?u) (reads s)) ?s0"
    using assms(1,2) by (rule timerSignal_closed)
  have mem: "w \<in> set (pushedBy WritePhase ?u)"
    using assms(3,4) by (rule pushedBy_mem)
  then have pushes: "pushes ?u"
    by (auto simp: pushes_def)
  have truthy: "truthy (rafId (timerSignal s))"
    unfolding closed using pushes by (intro drained_truthy) simp
  have "frameRequests ?s0 = armedOf (rafId ?s0)"
    using assms(1) by (simp add: consistent_def)
  then have "frameRequests (timerSignal s) = armedOf (rafId (timerSignal s))"
    unfolding closed by (rule drained_armed)
  with truthy have frames: "frameRequests (timerSignal s) = [the (rafId (timerSignal s))]"
    by (simp add: armedOf_truthy)
  have fresh: "\<not> truthy (rafId s) \<longrightarrow> rafId (timerSignal s) = Some (Suc (lastHandle s))"
    unfolding closed using pushes
    by (simp add: drained_def schedule_def requestAnimationFrame_def Let_def)
  have "upToFailure (ahead @ w # behind)
          = ahead @ w # (if fails w then [] else upToFailure behind)"
    using assms(6) by (simp add: upToFailure_ahead)
  with refreshSignal_ran [OF frames] assms(5)
  have next_phase: "ran (refreshSignal (timerSignal s))
      = ran (timerSignal s)
          @ map (Pair WritePhase) (ahead @ w # (if fails w then [] else upToFailure behind))"
    by simp
  have "ran (timerSignal s) = ran s @ map (Pair ReadPhase) ?u"
    and "writes (timerSignal s) = writes s @ pushedBy WritePhase ?u"
    unfolding closed by simp_all
  with mem truthy frames fresh next_phase show ?thesis by blast
qed

theorem write_from_read_deferred_witness:
  "ran (refreshSignal (timerSignal (refreshSignal
          (enqueueAll ReadPhase [Callback 1 [CallWrite (Callback 2 [])]] initial))))
     = [(ReadPhase, Callback 1 [CallWrite (Callback 2 [])]), (WritePhase, Callback 2 [])]"
  using write_from_read_deferred
    [of "refreshSignal (enqueueAll ReadPhase [Callback 1 [CallWrite (Callback 2 [])]] initial)"
        "Callback 1 [CallWrite (Callback 2 [])]" "Callback 2 []" "[]" "[]"]
  by (simp add: sched_eval consistent_def armedOf_def fails_def)

text \<open>
  C6 as stated does not hold when a write callback queued ahead fails. The read callback
  3 enqueues the write callback 4 behind the failing write callback 2; the next
  activation ends at callback 2, no further refresh is requested, and callback 4 stays
  in the queue however many activations follow.
\<close>

theorem write_from_read_deferred_counterexample:
  "ran (activation (activation (activation
         (enqueueAll ReadPhase [Callback 3 [CallWrite (Callback 4 [])]]
           (enqueueAll WritePhase [Callback 1 [CallWrite (Callback 2 [Throw])]] initial)))))
     = [(WritePhase, Callback 1 [CallWrite (Callback 2 [Throw])]),
        (ReadPhase, Callback 3 [CallWrite (Callback 4 [])]),
        (WritePhase, Callback 2 [Throw])]
   \<and> writes (activation (activation (activation
         (enqueueAll ReadPhase [Callback 3 [CallWrite (Callback 4 [])]]
           (enqueueAll WritePhase [Callback 1 [CallWrite (Callback 2 [Throw])]] initial)))))
     = [Callback 4 []]
   \<and> frameRequests (activation (activation (activation
         (enqueueAll ReadPhase [Callback 3 [CallWrite (Callback 4 [])]]
           (enqueueAll WritePhase [Callback 1 [CallWrite (Callback 2 [Throw])]] initial)))))
     = []"
  by (simp add: sched_eval)

end
